theory Spec2Isabelle
  imports Main "HOL-Library.Sublist"
begin

section \<open>Strings of the JavaScript runtime\<close>

text \<open>
  A JavaScript string is a sequence of UTF-16 code units. The model writes it as a
  \<^typ>\<open>string\<close>; one \<^typ>\<open>char\<close> stands for one code unit in the range 0..255.
  Among these, \<open>String.prototype.trim\<close> and the regular-expression class \<open>\s\<close> treat
  TAB, LF, VT, FF, CR, SPACE and NBSP as white space.
\<close>

definition is_js_space :: "char \<Rightarrow> bool" where
  "is_js_space c =
     (c = CHR 0x09 \<or> c = CHR 0x0A \<or> c = CHR 0x0B \<or> c = CHR 0x0C \<or> c = CHR 0x0D
      \<or> c = CHR 0x20 \<or> c = CHR 0xA0)"

definition trim :: "string \<Rightarrow> string" where
  \<comment> \<open>\<open>s.trim()\<close>: white space removed at both ends.\<close>
  "trim s = rev (dropWhile is_js_space (rev (dropWhile is_js_space s)))"

text \<open>
  \<open>break_at pat s\<close> finds the leftmost occurrence of \<open>pat\<close> in \<open>s\<close> and returns the text
  before it and the text after it; this is how a regular expression that is a plain
  sequence of characters matches.
\<close>

fun break_at :: "string \<Rightarrow> string \<Rightarrow> (string \<times> string) option" where
  "break_at pat [] = (if pat = [] then Some ([], []) else None)"
| "break_at pat (c # cs) =
     (if prefix pat (c # cs) then Some ([], drop (length pat) (c # cs))
      else map_option (\<lambda>(before, after). (c # before, after)) (break_at pat cs))"

section \<open>services/ollamaService.ts: normalizeHost\<close>

definition has_scheme :: "string \<Rightarrow> bool" where
  \<comment> \<open>\<open>s.match(/^https?:\/\//)\<close>\<close>
  "has_scheme s = (prefix ''http://'' s \<or> prefix ''https://'' s)"

definition remove_trailing_slash :: "string \<Rightarrow> string" where
  \<comment> \<open>\<open>s.replace(/\/$/, '')\<close>: the pattern matches one slash, at the end of the input.\<close>
  "remove_trailing_slash s = (if suffix ''/'' s then butlast s else s)"

definition normalizeHost :: "string \<Rightarrow> string" where
  "normalizeHost host =
     (let normalized = trim host;
          normalized = (if \<not> has_scheme normalized then ''http://'' @ normalized
                        else normalized)
      in remove_trailing_slash normalized)"

section \<open>components/ChatBubble.tsx: the reasoning block\<close>

text \<open>
  The source is \<open>src/unnamed/part_000\<close>. The regular expression
  \<open>/<think>([\s\S]*?)(?:<\/think>|$)/\<close> matches at the leftmost \<open><think>\<close>. Its group
  is lazy: it ends at the first \<open></think>\<close> after the opening tag, or at the end of the
  input where there is none. \<open>think_exec\<close> returns the text
  before the match, the group, and the text after the match.
\<close>

definition think_exec :: "string \<Rightarrow> (string \<times> string \<times> string) option" where
  "think_exec s =
     (case break_at ''<think>'' s of
        None \<Rightarrow> None
      | Some (before, rest) \<Rightarrow>
          (case break_at ''</think>'' rest of
             None \<Rightarrow> Some (before, rest, [])
           | Some (inner, after) \<Rightarrow> Some (before, inner, after)))"

record segments =
  thinkContent :: string
  mainContent :: string

definition split_think :: "string \<Rightarrow> segments" where
  \<comment> \<open>Step 1 of the \<open>useMemo\<close> body of \<open>ChatBubble\<close>, for a message that is not a system message.\<close>
  "split_think content =
     (let thinkContent = [];
          mainContent = content
      in case think_exec mainContent of
           None \<Rightarrow> \<lparr>thinkContent = thinkContent, mainContent = mainContent\<rparr>
         | Some (before, inner, after) \<Rightarrow>
             \<lparr>thinkContent = inner, mainContent = before @ after\<rparr>)"

definition has_reasoning :: "segments \<Rightarrow> bool" where
  \<comment> \<open>\<open>thinkHtml\<close> is \<open>null\<close> exactly when \<open>thinkContent\<close> is the empty string.\<close>
  "has_reasoning sg = (thinkContent sg \<noteq> [])"

section \<open>JSON values and \<open>JSON.parse\<close>\<close>

text \<open>
  The value \<open>JSON.parse\<close> returns. An object keeps its members in source order; a number
  is kept as the decimal it was written as: \<open>JNumber neg m e\<close> is \<open>m * 10^e\<close>, negated
  when \<open>neg\<close> holds.
\<close>

datatype json =
    JNull
  | JBool bool
  | JNumber bool nat int
  | JString string
  | JArray "json list"
  | JObject "(string \<times> json) list"

text \<open>
  \<open>JSON.parse\<close> belongs to the JavaScript runtime, not to this repository. The functions
  below that call it take it as the parameter \<open>parse\<close>, of type \<open>json_parser\<close>; \<open>None\<close>
  is the \<open>SyntaxError\<close> it throws. What is proved of them holds for every parser.
\<close>

type_synonym json_parser = "string \<Rightarrow> json option"

definition nonzero_double :: "nat \<Rightarrow> int \<Rightarrow> bool" where
  \<comment> \<open>The decimal \<open>m * 10^e\<close> does not round to the double 0: it exceeds \<open>2^-1075\<close>.\<close>
  "nonzero_double m e = (m \<noteq> 0 \<and> (0 \<le> e \<or> 10 ^ nat (- e) < m * 2 ^ 1075))"

fun js_truthy :: "json \<Rightarrow> bool" where
  "js_truthy JNull = False"
| "js_truthy (JBool b) = b"
| "js_truthy (JNumber neg m e) = nonzero_double m e"
| "js_truthy (JString s) = (s \<noteq> [])"
| "js_truthy (JArray vs) = True"
| "js_truthy (JObject ms) = True"

definition own_property :: "string \<Rightarrow> (string \<times> json) list \<Rightarrow> json option" where
  \<comment> \<open>Of two members with one name, \<open>JSON.parse\<close> keeps the later.\<close>
  "own_property k ms = map_of (rev ms) k"

fun get_member :: "string \<Rightarrow> json \<Rightarrow> json option" where
  \<comment> \<open>Reading \<open>v.message\<close> or \<open>v.content\<close> of a value other than \<open>null\<close>; \<open>None\<close> is
      \<open>undefined\<close>. Strings, numbers, booleans and arrays have no property of these names.\<close>
  "get_member k (JObject ms) = own_property k ms"
| "get_member k v = None"

section \<open>services/ollamaService.ts: streamChat\<close>

datatype js_error = Error (message: string)

datatype warning = ParseFailed | NullRecord

text \<open>
  What one call of \<open>streamChat\<close> does, in order: the calls of its three callbacks, and the
  lines it writes with \<open>console.warn\<close>. \<open>ParseFailed\<close> is the warning for a
  \<open>SyntaxError\<close> of \<open>JSON.parse\<close>, \<open>NullRecord\<close> the one for the \<open>TypeError\<close> of reading
  \<open>json.message\<close> where \<open>json\<close> is \<open>null\<close>. The callbacks return normally, as those of
  \<open>handleSendMessage\<close> do.
\<close>

datatype effect =
    OnChunk json
  | OnDone
  | OnError js_error
  | ConsoleWarn warning

fun split_nl :: "string \<Rightarrow> string list" where
  \<comment> \<open>\<open>text.split('\n')\<close>\<close>
  "split_nl [] = [[]]"
| "split_nl (c # cs) =
     (if c = CHR 0x0A then [] # split_nl cs
      else (case split_nl cs of [] \<Rightarrow> [[c]] | l # ls \<Rightarrow> (c # l) # ls))"

definition process_record :: "json \<Rightarrow> effect list" where
  \<comment> \<open>The \<open>try\<close> block once \<open>JSON.parse\<close> has returned \<open>json\<close>. Reading \<open>json.message\<close>
      throws where \<open>json\<close> is \<open>null\<close>, and the \<open>catch\<close> block writes the warning.\<close>
  "process_record json =
     (if json = JNull then [ConsoleWarn NullRecord]
      else case get_member ''message'' json of
             None \<Rightarrow> []
           | Some m \<Rightarrow>
               if js_truthy m then
                 (case get_member ''content'' m of
                    None \<Rightarrow> []
                  | Some c \<Rightarrow> if js_truthy c then [OnChunk c] else [])
               else [])"

definition process_line :: "json_parser \<Rightarrow> string \<Rightarrow> effect list" where
  \<comment> \<open>The body of \<open>for (const line of lines)\<close>.\<close>
  "process_line parse line =
     (if trim line = [] then []
      else case parse line of
             None \<Rightarrow> [ConsoleWarn ParseFailed]
           | Some json \<Rightarrow> process_record json)"

definition process_text :: "json_parser \<Rightarrow> string \<Rightarrow> effect list" where
  "process_text parse text = concat (map (process_line parse) (split_nl text))"

text \<open>
  The response body as the reader delivers it: the texts \<open>decoder.decode(value, {stream: true})\<close>
  returns for the successive reads, and how reading ends.
\<close>

datatype read_end = EndOfStream | ReadFails js_error

record body_stream =
  fragments :: "string list"
  ending :: read_end

fun read_loop :: "json_parser \<Rightarrow> string list \<Rightarrow> read_end \<Rightarrow> effect list" where
  \<comment> \<open>\<open>while (true)\<close>: one round for each read.\<close>
  "read_loop parse [] EndOfStream = [OnDone]"
| "read_loop parse [] (ReadFails e) = [OnError e]"
| "read_loop parse (text # rest) fin = process_text parse text @ read_loop parse rest fin"

record response =
  status :: nat
  text_result :: "js_error + string"
  body :: "body_stream option"

definition response_ok :: "response \<Rightarrow> bool" where
  \<comment> \<open>\<open>response.ok\<close>: the status is in the range 200-299.\<close>
  "response_ok r = (200 \<le> status r \<and> status r \<le> 299)"

datatype fetch_result = Rejects js_error | Resolves response

record AppSettings =
  host :: string
  selectedModel :: string
  systemPrompt :: string

definition digit_char :: "nat \<Rightarrow> char" where
  "digit_char d = ''0123456789'' ! d"

function show_nat :: "nat \<Rightarrow> string" where
  \<comment> \<open>The decimal digits of a non-negative integer, as a template literal prints it.\<close>
  "show_nat n = (if n < 10 then [digit_char n] else show_nat (n div 10) @ [digit_char (n mod 10)])"
  by pat_completeness auto
termination
  by (relation "measure (\<lambda>n. n)") auto

declare show_nat.simps [simp del]

definition streamChat ::
  "json_parser \<Rightarrow> (string \<Rightarrow> fetch_result) \<Rightarrow> AppSettings \<Rightarrow> effect list" where
  \<comment> \<open>\<open>fetch\<close> answers the POST to the given URL; the request body does not enter the model.\<close>
  "streamChat parse fetch settings =
     (let cleanHost = normalizeHost (host settings) in
      case fetch (cleanHost @ ''/api/chat'') of
        Rejects e \<Rightarrow> [OnError e]
      | Resolves response \<Rightarrow>
          if \<not> response_ok response then
            (case text_result response of
               Inl e \<Rightarrow> [OnError e]
             | Inr errorText \<Rightarrow>
                 [OnError (Error (''Ollama Error ('' @ show_nat (status response) @ ''): ''
                                  @ errorText))])
          else
            (case body response of
               None \<Rightarrow> [OnError (Error ''No response body'')]
             | Some b \<Rightarrow> read_loop parse (fragments b) (ending b)))"

section \<open>A reader for JSON text\<close>

text \<open>
  \<open>JSON_parse\<close> reads the JSON grammar of ECMA-404: white space, the three literals,
  numbers, strings with their escapes, arrays and objects. It instantiates the parameter
  \<open>parse\<close> in the closed examples. An escape \<open>\uXXXX\<close> above 255 names a code unit
  that no \<^typ>\<open>char\<close> stands for, and the reader rejects it; no example uses one. The
  nesting of arrays and objects is followed with fuel, twice the length of the text.
\<close>

definition is_json_ws :: "char \<Rightarrow> bool" where
  "is_json_ws c = (c = CHR 0x20 \<or> c = CHR 0x09 \<or> c = CHR 0x0A \<or> c = CHR 0x0D)"

definition skip_ws :: "string \<Rightarrow> string" where
  "skip_ws s = dropWhile is_json_ws s"

definition is_digit :: "char \<Rightarrow> bool" where
  "is_digit c = (c \<in> set ''0123456789'')"

definition digit_val :: "char \<Rightarrow> nat" where
  "digit_val c = of_char c - 48"

definition digits_val :: "string \<Rightarrow> nat" where
  "digits_val ds = foldl (\<lambda>acc c. 10 * acc + digit_val c) 0 ds"

definition hex_val :: "char \<Rightarrow> nat option" where
  "hex_val c =
     (if is_digit c then Some (of_char c - 48)
      else if c \<in> set ''abcdef'' then Some (of_char c - 87)
      else if c \<in> set ''ABCDEF'' then Some (of_char c - 55)
      else None)"

definition hex4 :: "string \<Rightarrow> nat option" where
  "hex4 s =
     (case map hex_val (take 4 s) of
        [Some a, Some b, Some c, Some d] \<Rightarrow> Some (((a * 16 + b) * 16 + c) * 16 + d)
      | _ \<Rightarrow> None)"

definition simple_escape :: "char \<Rightarrow> char option" where
  "simple_escape e =
     (if e = CHR 0x22 then Some (CHR 0x22)
      else if e = CHR 0x5C then Some (CHR 0x5C)
      else if e = CHR ''/'' then Some (CHR ''/'')
      else if e = CHR ''b'' then Some (CHR 0x08)
      else if e = CHR ''f'' then Some (CHR 0x0C)
      else if e = CHR ''n'' then Some (CHR 0x0A)
      else if e = CHR ''r'' then Some (CHR 0x0D)
      else if e = CHR ''t'' then Some (CHR 0x09)
      else None)"

definition push_char :: "char \<Rightarrow> (string \<times> string) option \<Rightarrow> (string \<times> string) option" where
  "push_char c r = map_option (\<lambda>(t, rest). (c # t, rest)) r"

function parse_string_body :: "string \<Rightarrow> (string \<times> string) option" where
  \<comment> \<open>The text after an opening quote: the string it denotes, and what follows the closing quote.\<close>
  "parse_string_body [] = None"
| "parse_string_body (c # cs) =
     (if c = CHR 0x22 then Some ([], cs)
      else if c = CHR 0x5C then
        (case cs of
           [] \<Rightarrow> None
         | e # cs' \<Rightarrow>
             if e = CHR ''u'' then
               (case hex4 cs' of
                  None \<Rightarrow> None
                | Some n \<Rightarrow> if n < 256 then push_char (char_of n) (parse_string_body (drop 4 cs'))
                            else None)
             else
               (case simple_escape e of
                  None \<Rightarrow> None
                | Some ch \<Rightarrow> push_char ch (parse_string_body cs')))
      else if (of_char c :: nat) < 32 then None
      else push_char c (parse_string_body cs))"
  by pat_completeness auto
termination
  by (relation "measure length") auto

definition parse_number :: "string \<Rightarrow> (json \<times> string) option" where
  "parse_number s =
     (let neg = prefix ''-'' s;
          s1 = (if neg then drop 1 s else s);
          ip = takeWhile is_digit s1;
          s2 = dropWhile is_digit s1
      in if ip = [] \<or> (1 < length ip \<and> prefix ''0'' ip) then None
         else
           let has_frac = prefix ''.'' s2;
               fp = (if has_frac then takeWhile is_digit (drop 1 s2) else []);
               s3 = (if has_frac then dropWhile is_digit (drop 1 s2) else s2)
           in if has_frac \<and> fp = [] then None
              else
                let has_exp = (prefix ''e'' s3 \<or> prefix ''E'' s3);
                    s4 = (if has_exp then drop 1 s3 else s3);
                    eneg = (has_exp \<and> prefix ''-'' s4);
                    s5 = (if has_exp \<and> (prefix ''-'' s4 \<or> prefix ''+'' s4) then drop 1 s4 else s4);
                    ep = (if has_exp then takeWhile is_digit s5 else []);
                    s6 = (if has_exp then dropWhile is_digit s5 else s3)
                in if has_exp \<and> ep = [] then None
                   else
                     let ex = (if eneg then - int (digits_val ep) else int (digits_val ep))
                     in Some (JNumber neg (digits_val (ip @ fp)) (ex - int (length fp)), s6))"

fun parse_value :: "nat \<Rightarrow> string \<Rightarrow> (json \<times> string) option"
  and parse_elements :: "nat \<Rightarrow> string \<Rightarrow> (json list \<times> string) option"
  and parse_members :: "nat \<Rightarrow> string \<Rightarrow> ((string \<times> json) list \<times> string) option"
where
  "parse_value 0 s = None"
| "parse_value (Suc n) s =
     (case skip_ws s of
        [] \<Rightarrow> None
      | c # cs \<Rightarrow>
          if c = CHR ''{'' then
            (if prefix ''}'' (skip_ws cs) then Some (JObject [], drop 1 (skip_ws cs))
             else map_option (\<lambda>(ms, rest). (JObject ms, rest)) (parse_members n cs))
          else if c = CHR ''['' then
            (if prefix '']'' (skip_ws cs) then Some (JArray [], drop 1 (skip_ws cs))
             else map_option (\<lambda>(vs, rest). (JArray vs, rest)) (parse_elements n cs))
          else if c = CHR 0x22 then
            map_option (\<lambda>(t, rest). (JString t, rest)) (parse_string_body cs)
          else if prefix ''true'' (c # cs) then Some (JBool True, drop 4 (c # cs))
          else if prefix ''false'' (c # cs) then Some (JBool False, drop 5 (c # cs))
          else if prefix ''null'' (c # cs) then Some (JNull, drop 4 (c # cs))
          else parse_number (c # cs))"
| "parse_elements 0 s = None"
| "parse_elements (Suc n) s =
     (case parse_value n s of
        None \<Rightarrow> None
      | Some (v, rest) \<Rightarrow>
          (case skip_ws rest of
             [] \<Rightarrow> None
           | c # cs \<Rightarrow>
               if c = CHR '','' then map_option (\<lambda>(vs, r). (v # vs, r)) (parse_elements n cs)
               else if c = CHR '']'' then Some ([v], cs)
               else None))"
| "parse_members 0 s = None"
| "parse_members (Suc n) s =
     (case skip_ws s of
        [] \<Rightarrow> None
      | q # ks \<Rightarrow>
          if q \<noteq> CHR 0x22 then None
          else
            (case parse_string_body ks of
               None \<Rightarrow> None
             | Some (k, after_key) \<Rightarrow>
                 if \<not> prefix '':'' (skip_ws after_key) then None
                 else
                   (case parse_value n (drop 1 (skip_ws after_key)) of
                      None \<Rightarrow> None
                    | Some (v, rest) \<Rightarrow>
                        (case skip_ws rest of
                           [] \<Rightarrow> None
                         | c # cs \<Rightarrow>
                             if c = CHR '','' then
                               map_option (\<lambda>(ms, r). ((k, v) # ms, r)) (parse_members n cs)
                             else if c = CHR ''}'' then Some ([(k, v)], cs)
                             else None))))"

definition JSON_parse :: json_parser where
  "JSON_parse s =
     (case parse_value (2 * length s + 2) s of
        None \<Rightarrow> None
      | Some (v, rest) \<Rightarrow> if skip_ws rest = [] then Some v else None)"

section \<open>App.tsx: handleSendMessage\<close>

text \<open>
  The source is \<open>src/unnamed/part_003\<close>; the type \<open>Message\<close> is declared in \<open>types.ts\<close>.
  The state of \<open>App\<close> that the exchange touches is the list of messages and the
  loading flag.
\<close>

datatype role = User | Assistant | System

record Message =
  role :: role
  content :: string
  images :: "string list option"
  timestamp :: nat
  id' :: string

record app_state =
  messages :: "Message list"
  isLoading :: bool

definition onChunk :: "string \<Rightarrow> string \<Rightarrow> app_state \<Rightarrow> app_state" where
  \<comment> \<open>The first callback: \<open>setMessages(prev => prev.map(...))\<close>.\<close>
  "onChunk assistantId chunk st =
     st\<lparr>messages :=
          map (\<lambda>msg. if id' msg = assistantId then msg\<lparr>content := content msg @ chunk\<rparr>
                      else msg)
              (messages st)\<rparr>"

definition onDone :: "app_state \<Rightarrow> app_state" where
  "onDone st = st\<lparr>isLoading := False\<rparr>"

definition error_note :: "js_error \<Rightarrow> string" where
  \<comment> \<open>The template literal at line 108: two line feeds, then the message in \<open>*[Error: ...]*\<close>.\<close>
  "error_note error = [CHR 0x0A, CHR 0x0A] @ ''*[Error: '' @ message error @ '']*''"

definition onError :: "string \<Rightarrow> js_error \<Rightarrow> app_state \<Rightarrow> app_state" where
  "onError assistantId error st =
     st\<lparr>isLoading := False,
        messages :=
          map (\<lambda>msg. if id' msg = assistantId
                      then msg\<lparr>content := content msg @ error_note error\<rparr>
                      else msg)
              (messages st)\<rparr>"

text \<open>
  One effect of \<open>streamChat\<close>, as the state of \<open>App\<close> sees it. The first callback is
  declared as \<open>(chunk: string) => void\<close>; for an argument that is not a string the result
  is \<open>None\<close>: JavaScript's conversion of other values to text is not part of the model.
\<close>

fun deliver :: "string \<Rightarrow> effect \<Rightarrow> app_state \<Rightarrow> app_state option" where
  "deliver assistantId (OnChunk (JString chunk)) st = Some (onChunk assistantId chunk st)"
| "deliver assistantId (OnChunk v) st = None"
| "deliver assistantId OnDone st = Some (onDone st)"
| "deliver assistantId (OnError e) st = Some (onError assistantId e st)"
| "deliver assistantId (ConsoleWarn w) st = Some st"

fun deliver_all :: "string \<Rightarrow> effect list \<Rightarrow> app_state \<Rightarrow> app_state option" where
  "deliver_all assistantId [] st = Some st"
| "deliver_all assistantId (ev # evs) st =
     (case deliver assistantId ev st of
        None \<Rightarrow> None
      | Some st' \<Rightarrow> deliver_all assistantId evs st')"

text \<open>
  \<open>handleSendMessage\<close> reads \<open>Date.now()\<close> four times; \<open>now\<close> holds the four readings in
  the order of the calls.
\<close>

definition assistant_id :: "nat \<times> nat \<times> nat \<times> nat \<Rightarrow> string" where
  "assistant_id now = (case now of (t1, t2, t3, t4) \<Rightarrow> show_nat (t3 + 1))"

definition start_exchange ::
  "nat \<times> nat \<times> nat \<times> nat \<Rightarrow> string \<Rightarrow> string list \<Rightarrow> app_state \<Rightarrow> app_state" where
  \<comment> \<open>Steps 1 and 2: the user message and the empty assistant message are appended.\<close>
  "start_exchange now text imgs st =
     (case now of (t1, t2, t3, t4) \<Rightarrow>
        let userMsg = \<lparr>role = User, content = text, images = Some imgs, timestamp = t1,
                       id' = show_nat t2\<rparr>;
            assistantId = show_nat (t3 + 1);
            assistantMsg = \<lparr>role = Assistant, content = [], images = None, timestamp = t4,
                            id' = assistantId\<rparr>;
            newMessages = messages st @ [userMsg, assistantMsg]
        in st\<lparr>messages := newMessages, isLoading := True\<rparr>)"

definition handleSendMessage ::
  "json_parser \<Rightarrow> (string \<Rightarrow> fetch_result) \<Rightarrow> AppSettings \<Rightarrow> nat \<times> nat \<times> nat \<times> nat \<Rightarrow>
   string \<Rightarrow> string list \<Rightarrow> app_state \<Rightarrow> app_state option" where
  "handleSendMessage parse fetch settings now text imgs st =
     deliver_all (assistant_id now) (streamChat parse fetch settings)
       (start_exchange now text imgs st)"

section \<open>Observations used in the statements\<close>

fun is_done :: "effect \<Rightarrow> bool" where
  "is_done OnDone = True"
| "is_done ev = False"

fun is_error :: "effect \<Rightarrow> bool" where
  "is_error (OnError e) = True"
| "is_error ev = False"

fun is_chunk :: "effect \<Rightarrow> bool" where
  "is_chunk (OnChunk v) = True"
| "is_chunk ev = False"

fun is_warning :: "effect \<Rightarrow> bool" where
  "is_warning (ConsoleWarn w) = True"
| "is_warning ev = False"

definition is_callback :: "effect \<Rightarrow> bool" where
  "is_callback ev = (\<not> is_warning ev)"

definition callbacks :: "effect list \<Rightarrow> effect list" where
  \<comment> \<open>What the caller of \<open>streamChat\<close> observes: the calls of its callbacks.\<close>
  "callbacks evs = filter is_callback evs"

definition not_blank :: "string \<Rightarrow> bool" where
  \<comment> \<open>The lines that pass \<open>if (!line.trim()) continue\<close>.\<close>
  "not_blank line = (trim line \<noteq> [])"

definition decoded_text :: "json_parser \<Rightarrow> string \<Rightarrow> json list" where
  \<comment> \<open>The values \<open>JSON.parse\<close> returns in one round of the loop, in order.\<close>
  "decoded_text parse text = List.map_filter parse (filter not_blank (split_nl text))"

definition decoded_records :: "json_parser \<Rightarrow> string list \<Rightarrow> json list" where
  "decoded_records parse frags = concat (map (decoded_text parse) frags)"

text \<open>
  A list of fragments is cut at line boundaries when, wherever one fragment ends and the
  next begins, the first is empty or ends with a line feed, or the next begins with one.
\<close>

fun line_aligned :: "string list \<Rightarrow> bool" where
  "line_aligned (f # g # rest) =
     ((f = [] \<or> suffix [CHR 0x0A] f \<or> prefix [CHR 0x0A] g) \<and> line_aligned (g # rest))"
| "line_aligned frags = True"

text \<open>
  A record of the chat protocol is a JSON object; its \<open>message\<close>, where it has one, is an
  object, whose \<open>content\<close>, where it has one, is a string. \<open>content_text\<close> is that string,
  and the empty string for a record without one.
\<close>

fun valid_record :: "json \<Rightarrow> bool" where
  "valid_record (JObject ms) =
     (case own_property ''message'' ms of
        None \<Rightarrow> True
      | Some (JObject mm) \<Rightarrow>
          (case own_property ''content'' mm of
             None \<Rightarrow> True
           | Some (JString t) \<Rightarrow> True
           | Some v \<Rightarrow> False)
      | Some v \<Rightarrow> False)"
| "valid_record v = False"

definition content_text :: "json \<Rightarrow> string" where
  "content_text j =
     (case get_member ''message'' j of
        None \<Rightarrow> []
      | Some m \<Rightarrow> (case get_member ''content'' m of Some (JString t) \<Rightarrow> t | _ \<Rightarrow> []))"

definition with_newlines :: "string list \<Rightarrow> string" where
  \<comment> \<open>A payload: each line followed by a line feed.\<close>
  "with_newlines ls = concat (map (\<lambda>l. l @ [CHR 0x0A]) ls)"

definition one_line :: "string \<Rightarrow> bool" where
  "one_line l = (CHR 0x0A \<notin> set l)"

definition valid_line :: "json_parser \<Rightarrow> string \<Rightarrow> bool" where
  \<comment> \<open>A line that is not blank and that \<open>JSON.parse\<close> reads as a value other than \<open>null\<close>.\<close>
  "valid_line parse l =
     (one_line l \<and> not_blank l \<and> (case parse l of None \<Rightarrow> False | Some j \<Rightarrow> j \<noteq> JNull))"

definition invalid_line :: "json_parser \<Rightarrow> string \<Rightarrow> bool" where
  "invalid_line parse l = (one_line l \<and> not_blank l \<and> parse l = None)"

definition unchanged_but_content :: "string \<Rightarrow> Message \<Rightarrow> Message \<Rightarrow> bool" where
  \<comment> \<open>\<open>m'\<close> is \<open>m\<close>, but for the content where the id is \<open>target\<close>.\<close>
  "unchanged_but_content target m m' =
     (role m' = role m \<and> images m' = images m \<and> timestamp m' = timestamp m \<and> id' m' = id' m
      \<and> (id' m \<noteq> target \<longrightarrow> m' = m))"

definition decimal_of :: "nat \<Rightarrow> string \<Rightarrow> bool" where
  \<comment> \<open>\<open>ds\<close> is the decimal numeral of \<open>n\<close>: digits only, of value \<open>n\<close>, and no leading zero
      but in the numeral \<open>0\<close> itself.\<close>
  "decimal_of n ds =
     (ds \<noteq> [] \<and> list_all is_digit ds \<and> digits_val ds = n
      \<and> (hd ds = CHR ''0'' \<longrightarrow> ds = ''0''))"

definition assistant_text :: "app_state \<Rightarrow> string" where
  \<comment> \<open>The text of the assistant turn of the running exchange: \<open>handleSendMessage\<close> appends
      that message last, and the callbacks keep the order of the messages.\<close>
  "assistant_text st = content (last (messages st))"

fun string_chunk :: "effect \<Rightarrow> bool" where
  \<comment> \<open>An effect that \<open>deliver\<close> accepts.\<close>
  "string_chunk (OnChunk (JString t)) = True"
| "string_chunk (OnChunk v) = False"
| "string_chunk ev = True"

fun added_text :: "effect list \<Rightarrow> string" where
  \<comment> \<open>What the callbacks append to the assistant message, in order.\<close>
  "added_text [] = []"
| "added_text (OnChunk (JString t) # evs) = t @ added_text evs"
| "added_text (OnError e # evs) = error_note e @ added_text evs"
| "added_text (ev # evs) = added_text evs"

definition append_content :: "string \<Rightarrow> string \<Rightarrow> Message \<Rightarrow> Message" where
  "append_content target extra msg =
     (if id' msg = target then msg\<lparr>content := content msg @ extra\<rparr> else msg)"

section \<open>Sample exchanges\<close>

definition sample_settings :: AppSettings where
  "sample_settings = \<lparr>host = ''localhost:11434/'', selectedModel = ''llama3'', systemPrompt = []\<rparr>"

definition answer :: "response \<Rightarrow> string \<Rightarrow> fetch_result" where
  \<comment> \<open>A server at \<open>localhost:11434\<close> that answers the chat request with \<open>r\<close>.\<close>
  "answer r url =
     (if url = ''http://localhost:11434/api/chat'' then Resolves r
      else Rejects (Error ''Failed to fetch''))"

definition streamed :: "string list \<Rightarrow> read_end \<Rightarrow> response" where
  "streamed frags fin =
     \<lparr>status = 200, text_result = Inr (concat frags),
      body = Some \<lparr>fragments = frags, ending = fin\<rparr>\<rparr>"

definition refused :: "nat \<Rightarrow> string \<Rightarrow> response" where
  "refused code txt = \<lparr>status = code, text_result = Inr txt, body = None\<rparr>"

definition unreadable :: "nat \<Rightarrow> js_error \<Rightarrow> response" where
  \<comment> \<open>A response whose \<open>text()\<close> rejects, as when the connection drops under it.\<close>
  "unreadable code e = \<lparr>status = code, text_result = Inl e, body = None\<rparr>"

definition sample_chat :: app_state where
  "sample_chat =
     \<lparr>messages =
        [\<lparr>role = User, content = ''hi'', images = Some [], timestamp = 5, id' = ''5''\<rparr>,
         \<lparr>role = Assistant, content = ''He'', images = None, timestamp = 5, id' = ''6''\<rparr>],
      isLoading = True\<rparr>"

definition empty_chat :: app_state where
  "empty_chat = \<lparr>messages = [], isLoading = False\<rparr>"

section \<open>Searching a string\<close>

lemma break_at_absent: "\<not> sublist pat s \<Longrightarrow> break_at pat s = None"
proof (induction s)
  case Nil
  then show ?case by auto
next
  case (Cons c cs)
  have "\<not> prefix pat (c # cs)" using Cons.prems by (meson prefix_imp_sublist)
  moreover have "\<not> sublist pat cs" using Cons.prems by (meson sublist_Cons_right)
  ultimately show ?case using Cons.IH by simp
qed

lemma no_overlap:
  assumes "x \<notin> set ps" and "prefix (x # ps) (u @ (x # ps) @ b)"
  shows "u = [] \<or> prefix (x # ps) u"
proof -
  from assms(2) consider "prefix (x # ps) u"
    | us where "x # ps = u @ us" "prefix us ((x # ps) @ b)"
    using prefix_append [of "x # ps" u "(x # ps) @ b"] by blast
  then show ?thesis
  proof cases
    case 1
    then show ?thesis by simp
  next
    case 2
    show ?thesis
    proof (cases u)
      case Nil
      then show ?thesis by simp
    next
      case (Cons c u')
      with 2(1) have ps: "ps = u' @ us" and "c = x" by auto
      show ?thesis
      proof (cases us)
        case Nil
        with 2(1) show ?thesis by simp
      next
        case (Cons y us')
        with 2(2) have "y = x" by simp
        with ps Cons assms(1) show ?thesis by simp
      qed
    qed
  qed
qed

lemma break_at_first:
  assumes "x \<notin> set ps" and "\<not> sublist (x # ps) a"
  shows "break_at (x # ps) (a @ (x # ps) @ b) = Some (a, b)"
  using assms(2)
proof (induction a)
  case Nil
  then show ?case by simp
next
  case (Cons c a')
  have "\<not> prefix (x # ps) (c # a')"
    using Cons.prems by (meson prefix_imp_sublist)
  then have "\<not> prefix (x # ps) ((c # a') @ (x # ps) @ b)"
    using no_overlap [OF assms(1), of "c # a'" b] by blast
  moreover have "\<not> sublist (x # ps) a'"
    using Cons.prems by (meson sublist_Cons_right)
  ultimately show ?case using Cons.IH by simp
qed

lemma open_first:
  "\<not> sublist ''<think>'' a \<Longrightarrow> break_at ''<think>'' (a @ ''<think>'' @ b) = Some (a, b)"
  using break_at_first [of "CHR ''<''" "''think>''" a b] by simp

lemma close_first:
  "\<not> sublist ''</think>'' a \<Longrightarrow> break_at ''</think>'' (a @ ''</think>'' @ b) = Some (a, b)"
  using break_at_first [of "CHR ''<''" "''/think>''" a b] by simp

section \<open>The reasoning block\<close>

text \<open>
  Claim C4. The split of \<open><think>abc</think>def\<close> has reasoning \<open>abc\<close> and body \<open>def\<close>; the
  split of \<open><think>abc\<close>, where the closing tag is missing, has reasoning \<open>abc\<close> and an
  empty body; a text in which \<open><think>\<close> does not occur is its own body, and has no
  reasoning block.
\<close>

theorem splitter_boundaries:
  "split_think ''<think>abc</think>def'' = \<lparr>thinkContent = ''abc'', mainContent = ''def''\<rparr>
   \<and> split_think ''<think>abc'' = \<lparr>thinkContent = ''abc'', mainContent = []\<rparr>
   \<and> (\<not> sublist ''<think>'' s \<longrightarrow>
        split_think s = \<lparr>thinkContent = [], mainContent = s\<rparr> \<and> \<not> has_reasoning (split_think s))"
proof (intro conjI impI)
  show "split_think ''<think>abc</think>def'' = \<lparr>thinkContent = ''abc'', mainContent = ''def''\<rparr>"
    by (simp add: split_think_def think_exec_def)
  show "split_think ''<think>abc'' = \<lparr>thinkContent = ''abc'', mainContent = []\<rparr>"
    by (simp add: split_think_def think_exec_def)
next
  assume "\<not> sublist ''<think>'' s"
  then have "break_at ''<think>'' s = None" by (rule break_at_absent)
  then show "split_think s = \<lparr>thinkContent = [], mainContent = s\<rparr>"
    and "\<not> has_reasoning (split_think s)"
    by (simp_all add: split_think_def think_exec_def has_reasoning_def)
qed

theorem splitter_boundaries_witness:
  "\<not> sublist ''<think>'' ''plain text''
   \<and> split_think ''plain text'' = \<lparr>thinkContent = [], mainContent = ''plain text''\<rparr>
   \<and> \<not> has_reasoning (split_think ''plain text'')"
proof -
  have h: "\<not> sublist ''<think>'' ''plain text''"
    by (simp add: sublist_Cons_right)
  with splitter_boundaries [of "''plain text''"] show ?thesis by blast
qed

text \<open>
  Claim C8. Of two reasoning regions only the first is taken out: the reasoning is the
  text of the first region, and the second region stays in the body, tags included.
  The first region opens at the first \<open><think>\<close> and closes at the first \<open></think>\<close>
  after it.
\<close>

theorem first_region_only:
  assumes "\<not> sublist ''<think>'' a" and "\<not> sublist ''</think>'' r1"
  shows "split_think (a @ ''<think>'' @ r1 @ ''</think>'' @ b @ ''<think>'' @ r2 @ ''</think>'' @ c)
         = \<lparr>thinkContent = r1, mainContent = a @ b @ ''<think>'' @ r2 @ ''</think>'' @ c\<rparr>"
proof -
  let ?rest = "b @ ''<think>'' @ r2 @ ''</think>'' @ c"
  have 1: "break_at ''<think>'' (a @ ''<think>'' @ (r1 @ ''</think>'' @ ?rest))
           = Some (a, r1 @ ''</think>'' @ ?rest)"
    using assms(1) by (rule open_first)
  have 2: "break_at ''</think>'' (r1 @ ''</think>'' @ ?rest) = Some (r1, ?rest)"
    using assms(2) by (rule close_first)
  from 1 2 show ?thesis
    by (simp add: split_think_def think_exec_def)
qed

theorem first_region_only_witness:
  "\<not> sublist ''<think>'' ''x'' \<and> \<not> sublist ''</think>'' ''one''
   \<and> split_think ''x<think>one</think>y<think>two</think>z''
       = \<lparr>thinkContent = ''one'', mainContent = ''xy<think>two</think>z''\<rparr>"
proof -
  have h1: "\<not> sublist ''<think>'' ''x''" and h2: "\<not> sublist ''</think>'' ''one''"
    by (simp_all add: sublist_Cons_right)
  from first_region_only [OF h1 h2, of "''y''" "''two''" "''z''"] h1 h2 show ?thesis by simp
qed


section \<open>Host normalization\<close>

text \<open>
  Claim C9. The host returned is to start with a scheme and not to end with a slash.
  On the empty input and on a bare \<open>http://\<close> the code returns \<open>http:/\<close>: the slash it
  removes is the second slash of the scheme, the one it has just prepended or found.
  The result has no scheme, and the guard \<open>cleanHost === 'http://'\<close> of \<open>checkConnection\<close>
  never holds for it.
\<close>

theorem normalizeHost_breaks_scheme:
  "normalizeHost [] = ''http:/''
   \<and> \<not> has_scheme (normalizeHost [])
   \<and> normalizeHost ''http://'' = ''http:/''
   \<and> \<not> has_scheme (normalizeHost ''http://'')"
  by (simp add: normalizeHost_def trim_def is_js_space_def has_scheme_def
      remove_trailing_slash_def suffix_def)

section \<open>The accumulator\<close>

lemma unchanged_refl: "unchanged_but_content target m m"
  by (simp add: unchanged_but_content_def)

lemma unchanged_trans:
  "unchanged_but_content target a b \<Longrightarrow> unchanged_but_content target b c \<Longrightarrow>
   unchanged_but_content target a c"
  by (auto simp: unchanged_but_content_def)

lemma frame_refl: "list_all2 (unchanged_but_content target) ms ms"
  by (simp add: list_all2_same unchanged_refl)

lemma frame_trans:
  "list_all2 (unchanged_but_content target) xs ys \<Longrightarrow>
   list_all2 (unchanged_but_content target) ys zs \<Longrightarrow>
   list_all2 (unchanged_but_content target) xs zs"
  by (rule list_all2_trans [where ?P1.0 = "unchanged_but_content target"
        and ?P2.0 = "unchanged_but_content target"]) (auto intro: unchanged_trans)

lemma onChunk_frame:
  "list_all2 (unchanged_but_content target) (messages st) (messages (onChunk target chunk st))"
  by (simp add: onChunk_def list_all2_map2 list_all2_same unchanged_but_content_def)

lemma onError_frame:
  "list_all2 (unchanged_but_content target) (messages st) (messages (onError target e st))"
  by (simp add: onError_def list_all2_map2 list_all2_same unchanged_but_content_def)

lemma deliver_frame:
  "deliver target ev st = Some st' \<Longrightarrow>
   list_all2 (unchanged_but_content target) (messages st) (messages st')"
  by (induction target ev st rule: deliver.induct)
     (auto simp: onChunk_frame onError_frame frame_refl onDone_def)

lemma deliver_all_frame:
  "deliver_all target evs st = Some st' \<Longrightarrow>
   list_all2 (unchanged_but_content target) (messages st) (messages st')"
proof (induction evs arbitrary: st)
  case Nil
  then show ?case by (simp add: frame_refl)
next
  case (Cons ev evs)
  then obtain s where s: "deliver target ev st = Some s" "deliver_all target evs s = Some st'"
    by (auto split: option.splits)
  from deliver_frame [OF s(1)] Cons.IH [OF s(2)] show ?case by (rule frame_trans)
qed

text \<open>
  Claim C10. Appending a delta and appending the error note leave the list of messages
  as long as it was and in the same order; a message whose id is not the target of the
  exchange is unchanged, and a message whose id is the target keeps its role, images,
  timestamp and id. The same holds from the start of an exchange to its end.
\<close>

theorem accumulator_frame:
  "list_all2 (unchanged_but_content target) (messages st) (messages (onChunk target chunk st))
   \<and> list_all2 (unchanged_but_content target) (messages st) (messages (onError target e st))
   \<and> (deliver_all target evs st = Some st' \<longrightarrow>
        list_all2 (unchanged_but_content target) (messages st) (messages st'))"
  using onChunk_frame onError_frame deliver_all_frame by blast


theorem accumulator_frame_witness:
  "deliver_all ''6'' [OnChunk (JString ''llo''), OnDone] sample_chat
     = Some (onDone (onChunk ''6'' ''llo'' sample_chat))
   \<and> list_all2 (unchanged_but_content ''6'') (messages sample_chat)
         (messages (onDone (onChunk ''6'' ''llo'' sample_chat)))
   \<and> list_all2 (unchanged_but_content ''6'') (messages sample_chat)
         (messages (onChunk ''6'' ''llo'' sample_chat))
   \<and> list_all2 (unchanged_but_content ''6'') (messages sample_chat)
         (messages (onError ''6'' (Error ''Failed to fetch'') sample_chat))"
proof -
  have h: "deliver_all ''6'' [OnChunk (JString ''llo''), OnDone] sample_chat
           = Some (onDone (onChunk ''6'' ''llo'' sample_chat))"
    by simp
  from accumulator_frame [of "''6''" sample_chat "''llo''" "Error ''Failed to fetch''"
      "[OnChunk (JString ''llo''), OnDone]" "onDone (onChunk ''6'' ''llo'' sample_chat)"] h
  show ?thesis by blast
qed

section \<open>Effects of the read loop\<close>

lemma process_record_shape:
  "process_record j = [] \<or> process_record j = [ConsoleWarn NullRecord]
   \<or> (\<exists>c. process_record j = [OnChunk c])"
proof (cases "j = JNull")
  case True
  then show ?thesis by (simp add: process_record_def)
next
  case False
  show ?thesis
  proof (cases "get_member ''message'' j")
    case None
    with False show ?thesis by (simp add: process_record_def)
  next
    case (Some m)
    with False show ?thesis
      by (cases "js_truthy m"; cases "get_member ''content'' m")
         (simp_all add: process_record_def)
  qed
qed

lemma process_line_shape:
  "process_line parse l = [] \<or> (\<exists>w. process_line parse l = [ConsoleWarn w])
   \<or> (\<exists>c. process_line parse l = [OnChunk c])"
proof (cases "trim l = []")
  case True
  then show ?thesis by (simp add: process_line_def)
next
  case False
  then show ?thesis
    using process_record_shape [of "the (parse l)"]
    by (cases "parse l") (auto simp: process_line_def)
qed

lemma process_line_kinds:
  "filter is_done (process_line parse l) = [] \<and> filter is_error (process_line parse l) = []"
  using process_line_shape [of parse l] by auto

lemma process_text_no_done: "filter is_done (process_text parse text) = []"
  by (simp add: process_text_def filter_concat process_line_kinds)

lemma process_text_no_error: "filter is_error (process_text parse text) = []"
  by (simp add: process_text_def filter_concat process_line_kinds)

lemma read_loop_counts:
  "length (filter is_done (read_loop parse frags fin))
   + length (filter is_error (read_loop parse frags fin)) = 1"
proof (induction frags)
  case Nil
  then show ?case by (cases fin) simp_all
next
  case (Cons t rest)
  then show ?case by (simp add: process_text_no_done process_text_no_error)
qed

lemma read_loop_concat:
  "read_loop parse frags fin = concat (map (process_text parse) frags) @ read_loop parse [] fin"
  by (induction frags) simp_all

text \<open>
  Claim C5. In every exchange \<open>streamChat\<close> calls exactly one of \<open>onDone\<close> and \<open>onError\<close>,
  once: whether \<open>fetch\<close> fails, the status is not a success, the body is missing,
  reading fails in the middle of the stream, or the stream ends.
\<close>

theorem exactly_one_completion:
  "length (filter is_done (streamChat parse fetch settings))
   + length (filter is_error (streamChat parse fetch settings)) = 1"
  by (simp add: streamChat_def Let_def read_loop_counts
      split: fetch_result.splits sum.splits option.splits)

theorem exactly_one_completion_witness:
  \<open>streamChat JSON_parse (answer (streamed [''{"message":{"content":"Hel"}}\<newline>''] (ReadFails (Error ''network error'')))) sample_settings
     = [OnChunk (JString ''Hel''), OnError (Error ''network error'')]
   \<and> length (filter is_done (streamChat JSON_parse (answer (streamed [''{"message":{"content":"Hel"}}\<newline>''] (ReadFails (Error ''network error'')))) sample_settings))
     + length (filter is_error (streamChat JSON_parse (answer (streamed [''{"message":{"content":"Hel"}}\<newline>''] (ReadFails (Error ''network error'')))) sample_settings)) = 1\<close>
proof -
  have \<open>streamChat JSON_parse (answer (streamed [''{"message":{"content":"Hel"}}\<newline>''] (ReadFails (Error ''network error'')))) sample_settings
     = [OnChunk (JString ''Hel''), OnError (Error ''network error'')]\<close>
    by code_simp
  with exactly_one_completion [of JSON_parse \<open>answer (streamed [''{"message":{"content":"Hel"}}\<newline>''] (ReadFails (Error ''network error'')))\<close> sample_settings]
  show ?thesis by blast
qed

section \<open>Decimal numerals\<close>

lemma digit_char_facts:
  assumes "d < 10"
  shows "is_digit (digit_char d)" and "digit_val (digit_char d) = d"
    and "digit_char d = CHR ''0'' \<longleftrightarrow> d = 0"
proof -
  from assms have "d = 0 \<or> d = 1 \<or> d = 2 \<or> d = 3 \<or> d = 4 \<or> d = 5 \<or> d = 6 \<or> d = 7
    \<or> d = 8 \<or> d = 9" by arith
  then show "is_digit (digit_char d)" and "digit_val (digit_char d) = d"
    and "digit_char d = CHR ''0'' \<longleftrightarrow> d = 0"
    by (auto simp: digit_char_def is_digit_def digit_val_def)
qed

lemma digits_val_snoc: "digits_val (ds @ [c]) = 10 * digits_val ds + digit_val c"
  by (simp add: digits_val_def)

lemma show_nat_digits:
  "show_nat n \<noteq> [] \<and> list_all is_digit (show_nat n) \<and> digits_val (show_nat n) = n
   \<and> (hd (show_nat n) = CHR ''0'' \<longrightarrow> n = 0)"
proof (induction n rule: show_nat.induct)
  case (1 n)
  show ?case
  proof (cases "n < 10")
    case True
    then have "show_nat n = [digit_char n]" by (simp add: show_nat.simps)
    with digit_char_facts [OF True] show ?thesis by (simp add: digits_val_def)
  next
    case False
    then have s: "show_nat n = show_nat (n div 10) @ [digit_char (n mod 10)]"
      by (simp add: show_nat.simps)
    have m: "n mod 10 < 10" by simp
    from 1 [OF False] False have "hd (show_nat (n div 10)) \<noteq> CHR ''0''" by auto
    with 1 [OF False] digit_char_facts [OF m] False show ?thesis
      by (simp add: s digits_val_snoc)
  qed
qed

lemma show_nat_decimal: "decimal_of n (show_nat n)"
proof -
  have "show_nat n = ''0''" if "hd (show_nat n) = CHR ''0''"
  proof -
    from that show_nat_digits [of n] have "n = 0" by blast
    then show ?thesis by (simp add: show_nat.simps digit_char_def)
  qed
  with show_nat_digits [of n] show ?thesis by (simp add: decimal_of_def)
qed

section \<open>A response that is not a success\<close>

text \<open>
  Claim C6, as stated, fails: the text of the response is read inside the \<open>try\<close> block,
  and where \<open>response.text()\<close> rejects, \<open>onError\<close> receives that rejection. Its message
  holds neither the status code nor a body text.
\<close>

theorem unread_body_counterexample:
  "\<not> response_ok (unreadable 500 (Error ''network error''))
   \<and> streamChat JSON_parse (answer (unreadable 500 (Error ''network error''))) sample_settings
       = [OnError (Error ''network error'')]
   \<and> show_nat 500 = ''500''
   \<and> \<not> sublist ''500'' ''network error''"
proof -
  have 1: "\<not> response_ok (unreadable 500 (Error ''network error''))"
    by (simp add: response_ok_def unreadable_def)
  have 2: "streamChat JSON_parse (answer (unreadable 500 (Error ''network error'')))
             sample_settings = [OnError (Error ''network error'')]"
    by code_simp
  have 3: "show_nat 500 = ''500''" by (simp add: show_nat.simps digit_char_def)
  have 4: "\<not> sublist ''500'' ''network error''" by (simp add: sublist_Cons_right)
  from 1 2 3 4 show ?thesis by blast
qed

text \<open>
  Claim C6, amended. For a response whose status is not a success, \<open>streamChat\<close> does one
  thing: it calls \<open>onError\<close>, once. No line of a body is processed, so there is no call of
  \<open>onChunk\<close>, no warning and no call of \<open>onDone\<close>. Where the text of the response can be
  read, the message of the error holds the status code, as its decimal numeral, and that
  text; where it cannot, the error is the failure of reading it.
\<close>

theorem non_success_status:
  assumes "fetch (normalizeHost (host settings) @ ''/api/chat'') = Resolves r"
    and "\<not> response_ok r"
  shows "(text_result r = Inr t \<longrightarrow>
            streamChat parse fetch settings
            = [OnError (Error (''Ollama Error ('' @ show_nat (status r) @ ''): '' @ t))])
         \<and> decimal_of (status r) (show_nat (status r))
         \<and> (text_result r = Inl e \<longrightarrow> streamChat parse fetch settings = [OnError e])
         \<and> length (streamChat parse fetch settings) = 1
         \<and> length (filter is_error (streamChat parse fetch settings)) = 1
         \<and> filter is_chunk (streamChat parse fetch settings) = []
         \<and> filter is_warning (streamChat parse fetch settings) = []
         \<and> filter is_done (streamChat parse fetch settings) = []"
  using assms show_nat_decimal [of "status r"]
  by (cases "text_result r") (simp_all add: streamChat_def)

theorem non_success_status_witness:
  "answer (refused 500 ''model not found'') (normalizeHost (host sample_settings) @ ''/api/chat'')
     = Resolves (refused 500 ''model not found'')
   \<and> \<not> response_ok (refused 500 ''model not found'')
   \<and> text_result (refused 500 ''model not found'') = Inr ''model not found''
   \<and> streamChat JSON_parse (answer (refused 500 ''model not found'')) sample_settings
       = [OnError (Error ''Ollama Error (500): model not found'')]
   \<and> decimal_of 500 ''500''
   \<and> map_option assistant_text
        (handleSendMessage JSON_parse (answer (refused 500 ''model not found'')) sample_settings
           (5, 5, 5, 5) ''hi'' [] empty_chat)
       = Some ''\<newline>\<newline>*[Error: Ollama Error (500): model not found]*''"
proof -
  have h1: "answer (refused 500 ''model not found'')
              (normalizeHost (host sample_settings) @ ''/api/chat'')
            = Resolves (refused 500 ''model not found'')"
    by code_simp
  have h2: "\<not> response_ok (refused 500 ''model not found'')"
    by (simp add: response_ok_def refused_def)
  have h3: "text_result (refused 500 ''model not found'') = Inr ''model not found''"
    by (simp add: refused_def)
  have s: "status (refused 500 ''model not found'') = 500" by (simp add: refused_def)
  have d: "show_nat 500 = ''500''" by (simp add: show_nat.simps digit_char_def)
  note th = non_success_status [where fetch = "answer (refused 500 ''model not found'')"
      and settings = sample_settings and r = "refused 500 ''model not found''"
      and t = "''model not found''" and parse = JSON_parse, OF h1 h2]
  from th h3
  have v: "streamChat JSON_parse (answer (refused 500 ''model not found'')) sample_settings
           = [OnError (Error ''Ollama Error (500): model not found'')]"
    by (simp add: s d)
  from th have dec: "decimal_of 500 ''500''" by (simp add: s d)
  have "map_option assistant_text
        (handleSendMessage JSON_parse (answer (refused 500 ''model not found'')) sample_settings
           (5, 5, 5, 5) ''hi'' [] empty_chat)
       = Some ''\<newline>\<newline>*[Error: Ollama Error (500): model not found]*''"
    unfolding handleSendMessage_def v
    by (simp add: start_exchange_def assistant_id_def empty_chat_def onError_def
        error_note_def assistant_text_def show_nat.simps digit_char_def)
  with h1 h2 h3 v dec show ?thesis by blast
qed

section \<open>Delivering effects to the state\<close>

lemma append_content_nil: "append_content target [] m = m"
  by (simp add: append_content_def)

lemma append_content_nil_map: "map (append_content target []) ms = ms"
  by (induction ms) (simp_all add: append_content_nil)

lemma append_content_twice:
  "append_content target b (append_content target a m) = append_content target (a @ b) m"
  by (simp add: append_content_def)

lemma onChunk_messages:
  "messages (onChunk target chunk st) = map (append_content target chunk) (messages st)"
  by (simp add: onChunk_def append_content_def)

lemma onError_messages:
  "messages (onError target e st) = map (append_content target (error_note e)) (messages st)"
  by (simp add: onError_def append_content_def)

lemma deliver_messages:
  "string_chunk ev \<Longrightarrow>
   \<exists>st'. deliver target ev st = Some st'
        \<and> messages st' = map (append_content target (added_text [ev])) (messages st)"
  by (induction target ev st rule: deliver.induct)
     (simp_all add: onChunk_messages onError_messages onDone_def append_content_nil_map)

lemma added_text_Cons: "added_text (ev # evs) = added_text [ev] @ added_text evs"
proof (cases ev)
  case (OnChunk v)
  then show ?thesis by (cases v) simp_all
qed simp_all

lemma added_text_append: "added_text (xs @ ys) = added_text xs @ added_text ys"
proof (induction xs)
  case Nil
  then show ?case by simp
next
  case (Cons ev xs)
  then show ?case
    using added_text_Cons [of ev "xs @ ys"] added_text_Cons [of ev xs] by simp
qed

lemma deliver_all_messages:
  "list_all string_chunk evs \<Longrightarrow>
   \<exists>st'. deliver_all target evs st = Some st'
        \<and> messages st' = map (append_content target (added_text evs)) (messages st)"
proof (induction evs arbitrary: st)
  case Nil
  then show ?case by (simp add: append_content_nil_map)
next
  case (Cons ev evs)
  then have "string_chunk ev" and rest: "list_all string_chunk evs" by simp_all
  from deliver_messages [OF this(1), of target st]
  obtain s where s: "deliver target ev st = Some s"
    "messages s = map (append_content target (added_text [ev])) (messages st)" by blast
  from Cons.IH [OF rest, of s]
  obtain st' where st': "deliver_all target evs s = Some st'"
    "messages st' = map (append_content target (added_text evs)) (messages s)" by blast
  have "messages st' = map (append_content target (added_text (ev # evs))) (messages st)"
    using s(2) st'(2) added_text_Cons [of ev evs] by (simp add: append_content_twice)
  with s(1) st'(1) show ?case by simp
qed

lemma deliver_all_append:
  "deliver_all target (xs @ ys) st =
     (case deliver_all target xs st of None \<Rightarrow> None | Some s \<Rightarrow> deliver_all target ys s)"
  by (induction xs arbitrary: st) (simp_all split: option.split)

lemma start_exchange_messages:
  "\<exists>u a. messages (start_exchange now input imgs st) = messages st @ [u, a]
         \<and> id' a = assistant_id now \<and> content a = []"
  by (cases now) (simp add: start_exchange_def assistant_id_def Let_def)

lemma assistant_text_after:
  assumes "messages st' = map (append_content (assistant_id now) extra)
                            (messages (start_exchange now input imgs st))"
  shows "assistant_text st' = extra"
proof -
  from start_exchange_messages [of now input imgs st]
  obtain u a where m: "messages (start_exchange now input imgs st) = messages st @ [u, a]"
    and a: "id' a = assistant_id now" "content a = []" by blast
  show ?thesis
    using assms a by (simp add: m assistant_text_def append_content_def)
qed

lemma frame_last:
  assumes "list_all2 (unchanged_but_content target) xs ys" and "xs \<noteq> []"
  shows "ys \<noteq> [] \<and> id' (last ys) = id' (last xs)"
proof -
  from assms have len: "length ys = length xs" and ne: "ys \<noteq> []"
    by (auto simp: list_all2_lengthD)
  have "unchanged_but_content target (xs ! (length xs - 1)) (ys ! (length xs - 1))"
    using list_all2_nthD [OF assms(1), of "length xs - 1"] assms(2) by simp
  then show ?thesis
    using ne assms(2) len by (simp add: last_conv_nth unchanged_but_content_def)
qed


text \<open>
  Claim C7. When an exchange ends with a call of \<open>onError\<close>, the text of the assistant
  turn afterwards is the text it had accumulated before, unchanged, followed by the
  error note: two line feeds, then the message of the error between \<open>*[Error: \<close> and
  \<open>]*\<close>.
\<close>

theorem error_keeps_partial_content:
  assumes "streamChat parse fetch settings = evs @ [OnError e]"
    and "deliver_all (assistant_id now) evs (start_exchange now input imgs st) = Some st1"
  shows "handleSendMessage parse fetch settings now input imgs st
           = Some (onError (assistant_id now) e st1)
         \<and> assistant_text (onError (assistant_id now) e st1)
           = assistant_text st1 @ ''\<newline>\<newline>*[Error: '' @ message e @ '']*''"
proof -
  have run: "handleSendMessage parse fetch settings now input imgs st
             = Some (onError (assistant_id now) e st1)"
    using assms by (simp add: handleSendMessage_def deliver_all_append)
  from start_exchange_messages [of now input imgs st]
  obtain u a where m: "messages (start_exchange now input imgs st) = messages st @ [u, a]"
    and a: "id' a = assistant_id now" by blast
  from m have ne: "messages (start_exchange now input imgs st) \<noteq> []" by simp
  from frame_last [OF deliver_all_frame [OF assms(2)] ne] m a
  have l: "messages st1 \<noteq> []" "id' (last (messages st1)) = assistant_id now" by simp_all
  have "assistant_text (onError (assistant_id now) e st1) = assistant_text st1 @ error_note e"
    using l by (simp add: assistant_text_def onError_messages last_map append_content_def)
  with run show ?thesis by (simp add: error_note_def)
qed

theorem error_keeps_partial_content_witness:
  \<open>streamChat JSON_parse
      (answer (streamed [''{"message":{"content":"Hel"}}\<newline>'']
                 (ReadFails (Error ''network error'')))) sample_settings
     = [OnChunk (JString ''Hel'')] @ [OnError (Error ''network error'')]
   \<and> map_option assistant_text
         (deliver_all (assistant_id (5, 5, 5, 5)) [OnChunk (JString ''Hel'')]
            (start_exchange (5, 5, 5, 5) ''hi'' [] empty_chat))
       = Some ''Hel''
   \<and> map_option assistant_text
         (handleSendMessage JSON_parse
            (answer (streamed [''{"message":{"content":"Hel"}}\<newline>'']
                       (ReadFails (Error ''network error'')))) sample_settings
            (5, 5, 5, 5) ''hi'' [] empty_chat)
       = Some ''Hel\<newline>\<newline>*[Error: network error]*''\<close>
proof -
  let ?fetch = \<open>answer (streamed [''{"message":{"content":"Hel"}}\<newline>'']
                          (ReadFails (Error ''network error'')))\<close>
  let ?start = "start_exchange (5, 5, 5, 5) ''hi'' [] empty_chat"
  let ?st1 = "onChunk (assistant_id (5, 5, 5, 5)) ''Hel'' ?start"
  have h1: "streamChat JSON_parse ?fetch sample_settings
            = [OnChunk (JString ''Hel'')] @ [OnError (Error ''network error'')]"
    by code_simp
  have h2: "deliver_all (assistant_id (5, 5, 5, 5)) [OnChunk (JString ''Hel'')] ?start
            = Some ?st1"
    by simp
  have t1: "assistant_text ?st1 = ''Hel''"
    by (simp add: assistant_text_def onChunk_def start_exchange_def assistant_id_def
        empty_chat_def)
  have n: "error_note (Error ''network error'') = ''\<newline>\<newline>*[Error: network error]*''"
    by (simp add: error_note_def)
  from error_keeps_partial_content [where fetch = ?fetch and parse = JSON_parse
      and settings = sample_settings, OF h1 h2] h1 h2 t1 n show ?thesis by simp
qed

section \<open>Accumulating the deltas\<close>

lemma process_record_valid:
  assumes "valid_record j"
  shows "process_record j
         = (if content_text j = [] then [] else [OnChunk (JString (content_text j))])"
proof (cases j)
  case (JObject ms)
  show ?thesis
  proof (cases "own_property ''message'' ms")
    case None
    with JObject show ?thesis by (simp add: process_record_def content_text_def)
  next
    case (Some m)
    with assms JObject obtain mm where m: "m = JObject mm"
      by (cases m) simp_all
    show ?thesis
    proof (cases "own_property ''content'' mm")
      case None
      with JObject Some m show ?thesis by (simp add: process_record_def content_text_def)
    next
      case c: (Some c)
      with assms JObject Some m obtain t where "c = JString t"
        by (cases c) simp_all
      with JObject Some m c show ?thesis
        by (simp add: process_record_def content_text_def)
    qed
  qed
qed (use assms in simp_all)

lemma lines_text:
  assumes "\<forall>j \<in> set (List.map_filter parse (filter not_blank ls)). valid_record j"
  shows "list_all string_chunk (concat (map (process_line parse) ls))
         \<and> added_text (concat (map (process_line parse) ls))
           = concat (map content_text (List.map_filter parse (filter not_blank ls)))"
  using assms
proof (induction ls)
  case Nil
  then show ?case by (simp add: List.map_filter_simps)
next
  case (Cons l ls)
  show ?case
  proof (cases "not_blank l")
    case False
    then have "process_line parse l = []" by (simp add: not_blank_def process_line_def)
    with False Cons show ?thesis by simp
  next
    case True
    show ?thesis
    proof (cases "parse l")
      case None
      with True have "process_line parse l = [ConsoleWarn ParseFailed]"
        by (simp add: not_blank_def process_line_def)
      with True None Cons show ?thesis
        by (simp add: List.map_filter_simps added_text_append)
    next
      case (Some j)
      with True Cons.prems have v: "valid_record j"
        and rest: "\<forall>j \<in> set (List.map_filter parse (filter not_blank ls)). valid_record j"
        by (simp_all add: List.map_filter_simps)
      from True Some have "process_line parse l = process_record j"
        by (simp add: not_blank_def process_line_def)
      with process_record_valid [OF v]
      have p: "process_line parse l
               = (if content_text j = [] then [] else [OnChunk (JString (content_text j))])"
        by simp
      from Cons.IH [OF rest] True Some p show ?thesis
        by (simp add: List.map_filter_simps added_text_append)
    qed
  qed
qed

lemma fragments_text:
  assumes "\<forall>j \<in> set (decoded_records parse frags). valid_record j"
  shows "list_all string_chunk (concat (map (process_text parse) frags))
         \<and> added_text (concat (map (process_text parse) frags))
           = concat (map content_text (decoded_records parse frags))"
  using assms
proof (induction frags)
  case Nil
  then show ?case by (simp add: decoded_records_def)
next
  case (Cons t frags)
  then have 1: "\<forall>j \<in> set (List.map_filter parse (filter not_blank (split_nl t))). valid_record j"
    and 2: "\<forall>j \<in> set (decoded_records parse frags). valid_record j"
    by (simp_all add: decoded_records_def decoded_text_def)
  from lines_text [OF 1] Cons.IH [OF 2] show ?case
    by (simp add: process_text_def decoded_records_def decoded_text_def added_text_append)
qed

text \<open>
  Claim C2. In an exchange whose stream ends normally and whose decoded records are
  all valid, the final text of the assistant turn is the concatenation, in stream order,
  of the \<open>message.content\<close> of the records: each delta is appended as it is.
\<close>

theorem deltas_concatenated:
  assumes "fetch (normalizeHost (host settings) @ ''/api/chat'') = Resolves r"
    and "response_ok r"
    and "body r = Some b"
    and "ending b = EndOfStream"
    and "\<forall>j \<in> set (decoded_records parse (fragments b)). valid_record j"
  shows "map_option assistant_text (handleSendMessage parse fetch settings now input imgs st)
         = Some (concat (map content_text (decoded_records parse (fragments b))))"
proof -
  let ?evs = "concat (map (process_text parse) (fragments b)) @ [OnDone]"
  have s: "streamChat parse fetch settings = ?evs"
    using assms(1-4) read_loop_concat [of parse "fragments b" EndOfStream]
    by (simp add: streamChat_def)
  from fragments_text [OF assms(5)]
  have ok: "list_all string_chunk ?evs"
    and tx: "added_text ?evs = concat (map content_text (decoded_records parse (fragments b)))"
    by (simp_all add: added_text_append)
  from deliver_all_messages [OF ok, of "assistant_id now" "start_exchange now input imgs st"]
  obtain st' where st': "deliver_all (assistant_id now) ?evs (start_exchange now input imgs st) = Some st'"
    "messages st' = map (append_content (assistant_id now) (added_text ?evs))
                      (messages (start_exchange now input imgs st))"
    by blast
  from assistant_text_after [OF st'(2)] tx st'(1) s show ?thesis
    by (simp add: handleSendMessage_def)
qed

theorem deltas_concatenated_witness:
  \<open>list_all valid_record (decoded_records JSON_parse
        [''{"message":{"content":"Hel"}}\<newline>'',
         ''{"message":{"content":"lo"}}\<newline>{"done":true}\<newline>''])
   \<and> map_option assistant_text
        (handleSendMessage JSON_parse
           (answer (streamed [''{"message":{"content":"Hel"}}\<newline>'',
                              ''{"message":{"content":"lo"}}\<newline>{"done":true}\<newline>'']
                      EndOfStream))
           sample_settings (5, 5, 5, 5) ''hi'' [] empty_chat)
      = Some ''Hello''\<close>
proof -
  let ?frags = \<open>[''{"message":{"content":"Hel"}}\<newline>'',
                 ''{"message":{"content":"lo"}}\<newline>{"done":true}\<newline>'']\<close>
  have h1: "answer (streamed ?frags EndOfStream)
              (normalizeHost (host sample_settings) @ ''/api/chat'')
            = Resolves (streamed ?frags EndOfStream)"
    by code_simp
  have h2: "response_ok (streamed ?frags EndOfStream)"
    by (simp add: response_ok_def streamed_def)
  have h3: "body (streamed ?frags EndOfStream) = Some \<lparr>fragments = ?frags, ending = EndOfStream\<rparr>"
    by (simp add: streamed_def)
  have h4: "ending \<lparr>fragments = ?frags, ending = EndOfStream\<rparr> = EndOfStream" by simp
  have l: "list_all valid_record (decoded_records JSON_parse ?frags)"
    by code_simp
  then have h5: "\<forall>j \<in> set (decoded_records JSON_parse
              (fragments \<lparr>fragments = ?frags, ending = EndOfStream\<rparr>)). valid_record j"
    by (simp add: list_all_iff)
  have v: "concat (map content_text (decoded_records JSON_parse
              (fragments \<lparr>fragments = ?frags, ending = EndOfStream\<rparr>))) = ''Hello''"
    by code_simp
  from deltas_concatenated [where fetch = "answer (streamed ?frags EndOfStream)"
      and settings = sample_settings and parse = JSON_parse and now = "(5, 5, 5, 5)"
      and input = "''hi''" and imgs = "[]" and st = empty_chat, OF h1 h2 h3 h4 h5] v l
  show ?thesis by simp
qed


section \<open>Lines and fragments\<close>

lemma split_nl_nonempty: "split_nl s \<noteq> []"
  by (induction s) (simp_all split: list.split)

lemma split_nl_at_newline: "split_nl (a @ CHR 0x0A # b) = split_nl a @ split_nl b"
proof (induction a)
  case Nil
  then show ?case by simp
next
  case (Cons c a)
  obtain l ls where "split_nl a = l # ls"
    using split_nl_nonempty [of a] by (cases "split_nl a") simp_all
  with Cons show ?case by simp
qed

lemma split_nl_one_line: "one_line l \<Longrightarrow> split_nl l = [l]"
  by (induction l) (auto simp: one_line_def)

lemma blank_line_silent: "process_line parse [] = []"
  by (simp add: process_line_def trim_def)

lemma empty_not_blank: "\<not> not_blank []"
  by (simp add: not_blank_def trim_def)

lemma process_text_empty: "process_text parse [] = []"
  by (simp add: process_text_def blank_line_silent)

lemma decoded_text_empty: "decoded_text parse [] = []"
  by (simp add: decoded_text_def empty_not_blank)

lemma map_filter_append:
  "List.map_filter f (xs @ ys) = List.map_filter f xs @ List.map_filter f ys"
  by (simp add: List.map_filter_def)

lemma process_text_at_newline:
  "process_text parse (a @ CHR 0x0A # b) = process_text parse a @ process_text parse b"
  by (simp add: process_text_def split_nl_at_newline)

lemma decoded_text_at_newline:
  "decoded_text parse (a @ CHR 0x0A # b) = decoded_text parse a @ decoded_text parse b"
  by (simp add: decoded_text_def split_nl_at_newline map_filter_append)

lemma join_cases:
  assumes "f = [] \<or> suffix [CHR 0x0A] f \<or> prefix [CHR 0x0A] t"
  obtains "f = []" | a where "f = a @ [CHR 0x0A]" | b where "t = CHR 0x0A # b"
  using assms by (auto simp: suffix_def prefix_def)

lemma process_text_join:
  assumes "f = [] \<or> suffix [CHR 0x0A] f \<or> prefix [CHR 0x0A] t"
  shows "process_text parse (f @ t) = process_text parse f @ process_text parse t"
  using assms
proof (cases rule: join_cases)
  case 1
  then show ?thesis by (simp add: process_text_empty)
next
  case (2 a)
  have "process_text parse (a @ CHR 0x0A # t) = process_text parse a @ process_text parse t"
    by (rule process_text_at_newline)
  moreover have "process_text parse (a @ CHR 0x0A # []) = process_text parse a"
    using process_text_at_newline [of parse a "[]"] by (simp add: process_text_empty)
  ultimately show ?thesis using 2 by simp
next
  case (3 b)
  have "process_text parse (f @ CHR 0x0A # b) = process_text parse f @ process_text parse b"
    by (rule process_text_at_newline)
  moreover have "process_text parse (CHR 0x0A # b) = process_text parse b"
    using process_text_at_newline [of parse "[]" b] by (simp add: process_text_empty)
  ultimately show ?thesis using 3 by simp
qed

lemma decoded_text_join:
  assumes "f = [] \<or> suffix [CHR 0x0A] f \<or> prefix [CHR 0x0A] t"
  shows "decoded_text parse (f @ t) = decoded_text parse f @ decoded_text parse t"
  using assms
proof (cases rule: join_cases)
  case 1
  then show ?thesis by (simp add: decoded_text_empty)
next
  case (2 a)
  have "decoded_text parse (a @ CHR 0x0A # t) = decoded_text parse a @ decoded_text parse t"
    by (rule decoded_text_at_newline)
  moreover have "decoded_text parse (a @ CHR 0x0A # []) = decoded_text parse a"
    using decoded_text_at_newline [of parse a "[]"] by (simp add: decoded_text_empty)
  ultimately show ?thesis using 2 by simp
next
  case (3 b)
  have "decoded_text parse (f @ CHR 0x0A # b) = decoded_text parse f @ decoded_text parse b"
    by (rule decoded_text_at_newline)
  moreover have "decoded_text parse (CHR 0x0A # b) = decoded_text parse b"
    using decoded_text_at_newline [of parse "[]" b] by (simp add: decoded_text_empty)
  ultimately show ?thesis using 3 by simp
qed

lemma aligned_head:
  assumes "f = [] \<or> suffix [CHR 0x0A] f \<or> prefix [CHR 0x0A] g"
  shows "f = [] \<or> suffix [CHR 0x0A] f \<or> prefix [CHR 0x0A] (g @ t)"
  using assms by (auto simp: prefix_def)

lemma process_text_aligned:
  "line_aligned frags \<Longrightarrow>
   process_text parse (concat frags) = concat (map (process_text parse) frags)"
proof (induction frags rule: line_aligned.induct)
  case (1 f g rest)
  then have j: "f = [] \<or> suffix [CHR 0x0A] f \<or> prefix [CHR 0x0A] (g @ concat rest)"
    and a: "line_aligned (g # rest)"
    using aligned_head [of f g "concat rest"] by simp_all
  from process_text_join [OF j, of parse] 1(1) [OF a] show ?case by simp
qed (simp_all add: process_text_empty)

lemma decoded_text_aligned:
  "line_aligned frags \<Longrightarrow>
   decoded_text parse (concat frags) = concat (map (decoded_text parse) frags)"
proof (induction frags rule: line_aligned.induct)
  case (1 f g rest)
  then have j: "f = [] \<or> suffix [CHR 0x0A] f \<or> prefix [CHR 0x0A] (g @ concat rest)"
    and a: "line_aligned (g # rest)"
    using aligned_head [of f g "concat rest"] by simp_all
  from decoded_text_join [OF j, of parse] 1(1) [OF a] show ?case by simp
qed (simp_all add: decoded_text_empty)

text \<open>
  Claim C1, as stated, fails: the loop splits each fragment on its own and keeps nothing
  between two reads. Of a payload of two records cut inside both, no record is decoded;
  delivered as one fragment, both are.
\<close>

theorem fragments_counterexample:
  \<open>decoded_records JSON_parse
      [''{"message":{"content":"He'', ''llo"}}\<newline>{"do'', ''ne":true}\<newline>''] = []
   \<and> decoded_records JSON_parse
      [concat [''{"message":{"content":"He'', ''llo"}}\<newline>{"do'', ''ne":true}\<newline>'']]
     = [JObject [(''message'', JObject [(''content'', JString ''Hello'')])],
        JObject [(''done'', JBool True)]]\<close>
  by code_simp

text \<open>
  Claim C1, amended. For a payload cut at line boundaries (each cut next to a line feed,
  before or after it), the decoded records, and all that the loop does, are those of the
  payload delivered as one fragment.
\<close>

theorem aligned_fragments_decode_alike:
  assumes "line_aligned frags"
  shows "decoded_records parse frags = decoded_records parse [concat frags]
         \<and> read_loop parse frags fin = read_loop parse [concat frags] fin"
  using decoded_text_aligned [OF assms, of parse] process_text_aligned [OF assms, of parse]
    read_loop_concat [of parse frags fin] read_loop_concat [of parse "[concat frags]" fin]
  by (simp add: decoded_records_def)

theorem aligned_fragments_decode_alike_witness:
  \<open>line_aligned [''{"message":{"content":"Hello"}}\<newline>'', ''{"done":true}'', ''\<newline>'']
   \<and> decoded_records JSON_parse
        [''{"message":{"content":"Hello"}}\<newline>'', ''{"done":true}'', ''\<newline>'']
     = [JObject [(''message'', JObject [(''content'', JString ''Hello'')])],
        JObject [(''done'', JBool True)]]
   \<and> decoded_records JSON_parse
        [concat [''{"message":{"content":"Hello"}}\<newline>'', ''{"done":true}'', ''\<newline>'']]
     = [JObject [(''message'', JObject [(''content'', JString ''Hello'')])],
        JObject [(''done'', JBool True)]]\<close>
proof -
  let ?frags = \<open>[''{"message":{"content":"Hello"}}\<newline>'', ''{"done":true}'', ''\<newline>'']\<close>
  have h: "line_aligned ?frags" by (simp add: suffix_def prefix_def)
  have v: \<open>decoded_records JSON_parse ?frags
     = [JObject [(''message'', JObject [(''content'', JString ''Hello'')])],
        JObject [(''done'', JBool True)]]\<close>
    by code_simp
  from aligned_fragments_decode_alike [OF h, of JSON_parse EndOfStream] h v
  show ?thesis by simp
qed


section \<open>A malformed line\<close>

lemma split_with_newlines:
  "list_all one_line ls \<Longrightarrow> split_nl (with_newlines ls) = ls @ [[]]"
proof (induction ls)
  case Nil
  then show ?case by (simp add: with_newlines_def)
next
  case (Cons l ls)
  then have "split_nl (with_newlines ls) = ls @ [[]]" and "split_nl l = [l]"
    by (simp_all add: split_nl_one_line)
  moreover have "with_newlines (l # ls) = l @ CHR 0x0A # with_newlines ls"
    by (simp add: with_newlines_def)
  ultimately show ?case by (simp add: split_nl_at_newline)
qed

lemma process_record_not_null:
  assumes "j \<noteq> JNull"
  shows "process_record j = [] \<or> (\<exists>c. process_record j = [OnChunk c])"
proof (cases "get_member ''message'' j")
  case None
  with assms show ?thesis by (simp add: process_record_def)
next
  case (Some m)
  with assms show ?thesis
    by (cases "js_truthy m"; cases "get_member ''content'' m")
       (simp_all add: process_record_def)
qed

lemma valid_line_effects:
  assumes "valid_line parse l"
  shows "filter is_warning (process_line parse l) = []
         \<and> callbacks (process_line parse l) = process_line parse l"
proof -
  from assms obtain j where j: "parse l = Some j" "j \<noteq> JNull" and nb: "trim l \<noteq> []"
    by (auto simp: valid_line_def not_blank_def split: option.splits)
  then have p: "process_line parse l = process_record j" by (simp add: process_line_def)
  from process_record_not_null [OF j(2)] p show ?thesis by (auto simp: callbacks_def is_callback_def)
qed

lemma valid_lines_effects:
  "list_all (valid_line parse) ls \<Longrightarrow>
   filter is_warning (concat (map (process_line parse) ls)) = []
   \<and> callbacks (concat (map (process_line parse) ls)) = concat (map (process_line parse) ls)"
proof (induction ls)
  case Nil
  then show ?case by (simp add: callbacks_def)
next
  case (Cons l ls)
  with valid_line_effects [of parse l] show ?case by (simp add: callbacks_def)
qed

lemma valid_lines_decoded:
  "list_all (valid_line parse) ls \<Longrightarrow>
   map Some (List.map_filter parse (filter not_blank ls)) = map parse ls"
  by (induction ls) (auto simp: valid_line_def split: option.splits)

lemma valid_lines_one_line: "list_all (valid_line parse) ls \<Longrightarrow> list_all one_line ls"
  by (induction ls) (simp_all add: valid_line_def)

lemma invalid_line_effect:
  "invalid_line parse l \<Longrightarrow> process_line parse l = [ConsoleWarn ParseFailed]"
  by (simp add: invalid_line_def not_blank_def process_line_def)

text \<open>
  Claim C3, as stated, fails: for the malformed line \<open>streamChat\<close> calls no callback.
  What its caller observes of a payload with a malformed line between two valid lines
  is the two deltas and the completion, and no error.
\<close>

theorem malformed_line_counterexample:
  \<open>valid_line JSON_parse ''{"message":{"content":"a"}}''
   \<and> invalid_line JSON_parse ''{"message":''
   \<and> valid_line JSON_parse ''{"message":{"content":"b"}}''
   \<and> callbacks (streamChat JSON_parse
        (answer (streamed
           [with_newlines [''{"message":{"content":"a"}}'', ''{"message":'',
                           ''{"message":{"content":"b"}}'']] EndOfStream))
        sample_settings)
     = [OnChunk (JString ''a''), OnChunk (JString ''b''), OnDone]
   \<and> filter is_error (callbacks (streamChat JSON_parse
        (answer (streamed
           [with_newlines [''{"message":{"content":"a"}}'', ''{"message":'',
                           ''{"message":{"content":"b"}}'']] EndOfStream))
        sample_settings)) = []\<close>
  by code_simp

text \<open>
  Claim C3, amended. Of a payload with one malformed line between valid lines, every
  valid line is decoded, in order, and the lines after the malformed one are processed;
  the malformed line gives one warning on the console and no call of a callback.
\<close>

theorem malformed_line_skipped:
  assumes "list_all (valid_line parse) before"
    and "invalid_line parse bad"
    and "list_all (valid_line parse) after"
  shows "map Some (decoded_records parse [with_newlines (before @ bad # after)])
           = map parse (before @ after)
         \<and> read_loop parse [with_newlines (before @ bad # after)] EndOfStream
           = concat (map (process_line parse) before) @ [ConsoleWarn ParseFailed]
             @ concat (map (process_line parse) after) @ [OnDone]
         \<and> callbacks (read_loop parse [with_newlines (before @ bad # after)] EndOfStream)
           = concat (map (process_line parse) (before @ after)) @ [OnDone]
         \<and> filter is_warning (read_loop parse [with_newlines (before @ bad # after)] EndOfStream)
           = [ConsoleWarn ParseFailed]
         \<and> filter is_error (read_loop parse [with_newlines (before @ bad # after)] EndOfStream)
           = []"
proof -
  let ?ls = "before @ bad # after"
  have ol: "list_all one_line ?ls"
    using assms valid_lines_one_line [of parse before] valid_lines_one_line [of parse after]
    by (simp add: invalid_line_def)
  have sp: "split_nl (with_newlines ?ls) = ?ls @ [[]]"
    using ol by (rule split_with_newlines)
  have bad: "process_line parse bad = [ConsoleWarn ParseFailed]"
    using assms(2) by (rule invalid_line_effect)
  have loop: "read_loop parse [with_newlines ?ls] EndOfStream
              = concat (map (process_line parse) before) @ [ConsoleWarn ParseFailed]
                @ concat (map (process_line parse) after) @ [OnDone]"
    by (simp add: process_text_def sp bad blank_line_silent)
  have dec: "map Some (decoded_records parse [with_newlines ?ls]) = map parse (before @ after)"
    using assms(2) valid_lines_decoded [OF assms(1)] valid_lines_decoded [OF assms(3)]
    by (simp add: decoded_records_def decoded_text_def sp empty_not_blank map_filter_append
        invalid_line_def)
  from valid_lines_effects [OF assms(1)] valid_lines_effects [OF assms(3)]
  have cb: "callbacks (read_loop parse [with_newlines ?ls] EndOfStream)
            = concat (map (process_line parse) (before @ after)) @ [OnDone]"
    and w: "filter is_warning (read_loop parse [with_newlines ?ls] EndOfStream)
            = [ConsoleWarn ParseFailed]"
    unfolding loop by (simp_all add: callbacks_def is_callback_def)
  have e: "filter is_error (read_loop parse [with_newlines ?ls] EndOfStream) = []"
    using read_loop_counts [of parse "[with_newlines ?ls]" EndOfStream]
    by (simp add: loop process_line_kinds filter_concat)
  from dec loop cb w e show ?thesis by blast
qed


theorem malformed_line_skipped_witness:
  \<open>list_all (valid_line JSON_parse) [''{"message":{"content":"a"}}'']
   \<and> invalid_line JSON_parse ''{"message":''
   \<and> list_all (valid_line JSON_parse) [''{"message":{"content":"b"}}'']
   \<and> read_loop JSON_parse
         [with_newlines ([''{"message":{"content":"a"}}''] @ ''{"message":''
                         # [''{"message":{"content":"b"}}''])] EndOfStream
     = [OnChunk (JString ''a''), ConsoleWarn ParseFailed, OnChunk (JString ''b''), OnDone]
   \<and> filter is_warning (read_loop JSON_parse
         [with_newlines ([''{"message":{"content":"a"}}''] @ ''{"message":''
                         # [''{"message":{"content":"b"}}''])] EndOfStream)
     = [ConsoleWarn ParseFailed]\<close>
proof -
  have h1: \<open>list_all (valid_line JSON_parse) [''{"message":{"content":"a"}}'']\<close>
    by code_simp
  have h2: \<open>invalid_line JSON_parse ''{"message":''\<close>
    by code_simp
  have h3: \<open>list_all (valid_line JSON_parse) [''{"message":{"content":"b"}}'']\<close>
    by code_simp
  have a: \<open>process_line JSON_parse ''{"message":{"content":"a"}}'' = [OnChunk (JString ''a'')]\<close>
    by code_simp
  have b: \<open>process_line JSON_parse ''{"message":{"content":"b"}}'' = [OnChunk (JString ''b'')]\<close>
    by code_simp
  from malformed_line_skipped [OF h1 h2 h3] h1 h2 h3 a b show ?thesis by simp
qed


end
